theory Spec2Isabelle
  imports Main
begin

text \<open>
  A model of the interactive SQL Server client of \<open>mssql-cli\<close>: the reader of lines, the
  accumulation of a batch, the classification of a statement, its execution, the table
  of a result set and the session loop (\<open>Reader.ReadLine\<close>, \<open>CLI.readMultiLine\<close>,
  \<open>isQuery\<close>, \<open>CLI.handleSpecialCommand\<close>, \<open>CLI.executeSQL\<close>, \<open>CLI.displayTable\<close>,
  \<open>CLI.Start\<close> and the functions they call). The line editor, the driver and the clock
  are outside the program: they are the events, the replies and the times that the
  functions are given. Opening the connection and the welcome text are not modelled.
\<close>

section \<open>Texts\<close>

text \<open>
  A Go string is a sequence of bytes, and \<open>len\<close> and slicing count bytes; so a text is a
  \<open>string\<close> here, one \<open>char\<close> per byte. The functions of package \<open>strings\<close> that the
  client calls are written out below. \<open>ToUpper\<close>, \<open>ToLower\<close>, \<open>TrimSpace\<close> and
  \<open>Fields\<close> follow Unicode in Go; the definitions below are their behaviour on ASCII
  text: a byte from 128 on is taken as it is, neither a letter with another case nor a space.
\<close>

definition upperByte :: "char \<Rightarrow> char" where
  "upperByte c = (let n = (of_char c :: nat) in
     if 97 \<le> n \<and> n \<le> 122 then char_of (n - 32) else c)"

definition lowerByte :: "char \<Rightarrow> char" where
  "lowerByte c = (let n = (of_char c :: nat) in
     if 65 \<le> n \<and> n \<le> 90 then char_of (n + 32) else c)"

definition ToUpper :: "string \<Rightarrow> string" where
  "ToUpper s = map upperByte s"

definition ToLower :: "string \<Rightarrow> string" where
  "ToLower s = map lowerByte s"

text \<open>The ASCII white space of Go: tab, line feed, vertical tab, form feed, carriage
  return and the blank.\<close>

definition isSpace :: "char \<Rightarrow> bool" where
  "isSpace c = (let n = (of_char c :: nat) in (9 \<le> n \<and> n \<le> 13) \<or> n = 32)"

definition TrimSpace :: "string \<Rightarrow> string" where
  "TrimSpace s = rev (dropWhile isSpace (rev (dropWhile isSpace s)))"

definition HasPrefix :: "string \<Rightarrow> string \<Rightarrow> bool" where
  "HasPrefix s p = (take (length p) s = p)"

definition HasSuffix :: "string \<Rightarrow> string \<Rightarrow> bool" where
  "HasSuffix s p = (length p \<le> length s \<and> drop (length s - length p) s = p)"

definition TrimSuffix :: "string \<Rightarrow> string \<Rightarrow> string" where
  "TrimSuffix s p = (if HasSuffix s p then take (length s - length p) s else s)"

fun Join :: "string list \<Rightarrow> string \<Rightarrow> string" where
  "Join [] sep = []"
| "Join [x] sep = x"
| "Join (x # y # ys) sep = x @ sep @ Join (y # ys) sep"

text \<open>\<open>Fields\<close> splits a text around runs of white space; \<open>cur\<close> is the field being
  read.\<close>

fun fieldsFrom :: "string \<Rightarrow> string \<Rightarrow> string list" where
  "fieldsFrom cur [] = (if cur = [] then [] else [cur])"
| "fieldsFrom cur (c # cs) =
     (if isSpace c then (if cur = [] then fieldsFrom [] cs else cur # fieldsFrom [] cs)
      else fieldsFrom (cur @ [c]) cs)"

definition Fields :: "string \<Rightarrow> string list" where
  "Fields s = fieldsFrom [] s"

section \<open>The command classifier\<close>

definition queryPrefixes :: "string list" where
  "queryPrefixes =
     [''SELECT'', ''SHOW'', ''WITH'', ''EXPLAIN'',
      ''EXEC sp_help'', ''EXEC sp_databases'', ''EXEC sp_tables'',
      ''EXEC sp_columns'', ''EXEC sp_who'']"

fun anyPrefix :: "string \<Rightarrow> string list \<Rightarrow> bool" where
  "anyPrefix upper [] = False"
| "anyPrefix upper (prefix # rest) =
     (if HasPrefix upper prefix then True else anyPrefix upper rest)"

definition isQuery :: "string \<Rightarrow> bool" where
  "isQuery sqlStr = anyPrefix (ToUpper (TrimSpace sqlStr)) queryPrefixes"

section \<open>The line source and the reader\<close>

text \<open>
  What one call of \<open>readline.Instance.Readline\<close> gives: a line of text, the interrupt
  signal, the end of the input, or another error.
\<close>

datatype event = Line string | Interrupted | EOF | ReadFailure string

text \<open>\<open>Reader.ReadLine\<close> returns a line and an error; \<open>Inl\<close> is the error.\<close>

fun ReadLine :: "event \<Rightarrow> string + string" where
  "ReadLine Interrupted = Inr []"
| "ReadLine EOF = Inr ''exit''"
| "ReadLine (Line line) = Inr line"
| "ReadLine (ReadFailure err) = Inl err"

section \<open>The session\<close>

text \<open>
  The calls the session makes on the connection after it is open, with the text sent.
\<close>

datatype db_call = Exec string | ExecContext string | QueryContext string

text \<open>
  One call of \<open>fmt.Fprintf\<close> on the terminal. \<open>Text s\<close> is a call that writes the
  bytes \<open>s\<close>: its format is a constant of the source, and its operands are rendered by
  the functions of the next section. \<open>Format f\<close> is a call whose format is the run-time
  text \<open>f\<close>, with no operand; \<open>fmt\<close> writes \<open>f\<close> itself when \<open>f\<close> has no
  \<open>%\<close> in it.
\<close>

datatype written = Text string | Format string

text \<open>
  The fields of \<open>CLI\<close> that the session loop reads or writes. \<open>term_out\<close> is the list
  of the writes made on \<open>term\<close>, in order, and \<open>calls\<close> is the list of calls made on
  \<open>db\<close>, in order. The connection parameters are used by \<open>Connect\<close> only.
\<close>

record CLI =
  database :: string
  timingEnabled :: bool
  maxRows :: int
  term_out :: "written list"
  calls :: "db_call list"

definition NewCLI :: "string \<Rightarrow> CLI" where
  "NewCLI db = \<lparr>database = db, timingEnabled = False, maxRows = 1000,
     term_out = [], calls = []\<rparr>"

definition emit :: "string \<Rightarrow> CLI \<Rightarrow> CLI" where
  "emit s c = c\<lparr>term_out := term_out c @ [Text s]\<rparr>"

definition emitAll :: "written list \<Rightarrow> CLI \<Rightarrow> CLI" where
  "emitAll ws c = c\<lparr>term_out := term_out c @ ws\<rparr>"

definition getPrompt :: "CLI \<Rightarrow> string" where
  "getPrompt c = database c @ ''> ''"

section \<open>The batch accumulator\<close>

text \<open>The two lines after the loop of \<open>readMultiLine\<close>.\<close>

definition joinLines :: "string list \<Rightarrow> string" where
  "joinLines lines = TrimSuffix (TrimSpace (Join lines [CHR 0x0A])) '';''"

text \<open>
  One round of the loop of \<open>readMultiLine\<close>, on the lines read so far and the result of
  \<open>ReadLine\<close>: the function returns a statement, or goes on with a longer batch after
  the continuation prompt.
\<close>

datatype round = Return string | Continue "string list"

definition readRound :: "string list \<Rightarrow> string + string \<Rightarrow> round" where
  "readRound lines r =
     (case r of
        Inl err \<Rightarrow> Return []
      | Inr line \<Rightarrow>
          (let trimmed = TrimSpace line in
           if trimmed = [] \<and> length lines = 0 then Return []
           else
             (let lines1 = lines @ [line] in
              if ToUpper trimmed = ''GO'' then Return (joinLines (butlast lines1))
              else if HasSuffix trimmed '';'' then Return (joinLines lines1)
              else Continue lines1)))"

text \<open>
  The loop reads one event in each round. \<open>None\<close> is the loop still asking for a line
  when the events given are used up: it has not returned.
\<close>

fun readLoop :: "CLI \<Rightarrow> string list \<Rightarrow> event list \<Rightarrow> (string \<times> CLI \<times> event list) option" where
  "readLoop c lines [] = None"
| "readLoop c lines (e # es) =
     (case readRound lines (ReadLine e) of
        Return s \<Rightarrow> Some (s, c, es)
      | Continue lines1 \<Rightarrow> readLoop (emit ''  -> '' c) lines1 es)"

definition readMultiLine :: "CLI \<Rightarrow> event list \<Rightarrow> (string \<times> CLI \<times> event list) option" where
  "readMultiLine c es = readLoop c [] es"

section \<open>What \<open>fmt\<close> renders\<close>

text \<open>\<open>%d\<close> on an integer: its decimal digits, after a minus sign when it is negative.\<close>

definition digit :: "nat \<Rightarrow> char" where
  "digit d = char_of (48 + d)"

fun showNat :: "nat \<Rightarrow> string" where
  "showNat n = (if n < 10 then [digit n] else showNat (n div 10) @ [digit (n mod 10)])"

declare showNat.simps [simp del]

definition showInt :: "int \<Rightarrow> string" where
  "showInt i = (if i < 0 then CHR ''-'' # showNat (nat (- i)) else showNat (nat i))"

text \<open>
  \<open>%.3f\<close> on the elapsed seconds. The clock is outside the program: the model is given
  the elapsed time as the number \<open>ms\<close> of milliseconds that \<open>%.3f\<close> rounds it to, and
  writes the seconds, a point and the three digits of the milliseconds.
\<close>

definition showSeconds :: "nat \<Rightarrow> string" where
  "showSeconds ms =
     showNat (ms div 1000) @ ''.'' @
     [digit (ms mod 1000 div 100), digit (ms mod 100 div 10), digit (ms mod 10)]"

text \<open>
  \<open>%-*s\<close> pads a text with blanks on the right up to a width counted in runes
  (\<open>utf8.RuneCountInString\<close>), not in bytes. \<open>runeSize\<close> is the number of bytes that the
  decoder takes for the rune at the head of a text: 1 for an ASCII byte, the length of a
  well-formed UTF-8 sequence, and 1 for a byte that does not start one.
\<close>

definition contByte :: "char \<Rightarrow> bool" where
  "contByte c = (128 \<le> (of_char c :: nat) \<and> (of_char c :: nat) \<le> 191)"

definition runeSize :: "string \<Rightarrow> nat" where
  "runeSize s =
     (case s of
        [] \<Rightarrow> 1
      | c # cs \<Rightarrow>
          (let n = (of_char c :: nat) in
           if n < 128 then 1
           else if n < 194 \<or> 244 < n then 1
           else
             (let size = (if n < 224 then 2 else if n < 240 then 3 else (4::nat));
                  lo = (if n = 224 then 160 else if n = 240 then 144 else (128::nat));
                  hi = (if n = 237 then 159 else if n = 244 then 143 else (191::nat))
              in if length s < size then 1
                 else if (of_char (s ! 1) :: nat) < lo \<or> hi < (of_char (s ! 1) :: nat) then 1
                 else if size = 2 then 2
                 else if \<not> contByte (s ! 2) then 1
                 else if size = 3 then 3
                 else if \<not> contByte (s ! 3) then 1
                 else 4)))"

lemma runeSize_pos: "0 < runeSize s"
  by (simp add: runeSize_def Let_def split: list.splits)

function runeCount :: "string \<Rightarrow> nat" where
  "runeCount s = (if s = [] then 0 else Suc (runeCount (drop (runeSize s) s)))"
  by pat_completeness auto
termination
  by (relation "measure length") (auto simp: runeSize_pos)

declare runeCount.simps [simp del]

definition padRight :: "nat \<Rightarrow> string \<Rightarrow> string" where
  "padRight w s = s @ replicate (w - runeCount s) CHR '' ''"

section \<open>The database collaborator\<close>

text \<open>
  A value that \<open>rows.Scan\<close> stores in an \<open>interface{}\<close>: nil, a byte slice, a time, or
  anything else. \<open>VTime\<close> carries the text that \<open>Format("2006-01-02 15:04:05")\<close> gives
  for the time, and \<open>VOther\<close> the text that \<open>%v\<close> gives for the value.
\<close>

datatype sqlvalue = VNull | VBytes string | VTime string | VOther string

text \<open>
  The driver answers a call from the calls made before it and the text sent: \<open>Inl\<close> is
  the text of the error. A query answers with the column names and the rows of the
  cursor; each row has one value for each column. \<open>elapsedMs\<close> is the clock: the
  milliseconds since \<open>startTime\<close> when the footer of the execution is written.
\<close>

record driver =
  execReply :: "db_call list \<Rightarrow> string \<Rightarrow> string + int"
  queryReply :: "db_call list \<Rightarrow> string \<Rightarrow> string + (string list \<times> sqlvalue list list)"
  elapsedMs :: "db_call list \<Rightarrow> nat"

section \<open>The table renderer\<close>

definition initWidth :: "string \<Rightarrow> nat" where
  "initWidth col =
     (let w = length col;
          w1 = (if w < 4 then 4 else w)
      in if w1 > 50 then 50 else w1)"

fun cellText :: "sqlvalue \<Rightarrow> string" where
  "cellText VNull = ''NULL''"
| "cellText (VBytes val) = val"
| "cellText (VTime val) = val"
| "cellText (VOther val) = val"

text \<open>The width of a column and the text of a cell, after the test on the cell's length.\<close>

definition fitCell :: "nat \<Rightarrow> string \<Rightarrow> nat \<times> string" where
  "fitCell w s =
     (if length s > w then
        (if length s > 50 then (50, take 47 s @ ''...'') else (length s, s))
      else (w, s))"

text \<open>
  One row: \<open>vals\<close> has one entry for each column, nil where \<open>Scan\<close> stored nothing.
\<close>

fun scanRow :: "nat list \<Rightarrow> sqlvalue list \<Rightarrow> nat list \<times> string list" where
  "scanRow [] vals = ([], [])"
| "scanRow (w # ws) vals =
     (let v = (case vals of [] \<Rightarrow> VNull | x # xs \<Rightarrow> x);
          (w1, s) = fitCell w (cellText v);
          (ws1, strs) = scanRow ws (tl vals)
      in (w1 # ws1, s # strs))"

text \<open>
  The loop over \<open>rows.Next()\<close>: the widths, the rows kept so far and the cursor go in;
  the widths, the rows kept and the rows left in the cursor come out.
\<close>

fun fetchRows :: "int \<Rightarrow> nat list \<Rightarrow> string list list \<Rightarrow> sqlvalue list list \<Rightarrow>
    nat list \<times> string list list \<times> sqlvalue list list" where
  "fetchRows cap colWidths allRows [] = (colWidths, allRows, [])"
| "fetchRows cap colWidths allRows (r # rest) =
     (let (colWidths1, rowStrs) = scanRow colWidths r;
          allRows1 = allRows @ [rowStrs]
      in if int (length allRows1) \<ge> cap then (colWidths1, allRows1, rest)
         else fetchRows cap colWidths1 allRows1 rest)"

definition printSeparator :: "nat list \<Rightarrow> written list" where
  "printSeparator colWidths =
     [Text ''+''] @ map (\<lambda>width. Text (replicate (width + 2) CHR ''-'' @ ''+'')) colWidths @
     [Text [CHR 0x0A]]"

definition printCells :: "nat list \<Rightarrow> string list \<Rightarrow> written list" where
  "printCells colWidths row =
     [Text ''| ''] @ map (\<lambda>(w, val). Text (padRight w val @ '' | '')) (zip colWidths row) @
     [Text [CHR 0x0A]]"

definition rowCountLine :: "nat \<Rightarrow> written" where
  "rowCountLine rowCount =
     (if rowCount = 0 then Text (''(0 rows affected)'' @ [CHR 0x0A])
      else if rowCount = 1 then Text (''(1 row affected)'' @ [CHR 0x0A])
      else Text (''('' @ showInt (int rowCount) @ '' rows affected)'' @ [CHR 0x0A]))"

definition displayTable :: "nat \<Rightarrow> string list \<Rightarrow> sqlvalue list list \<Rightarrow> CLI \<Rightarrow> CLI" where
  "displayTable elapsed cols rows c =
     (let (colWidths, allRows, rest) = fetchRows (maxRows c) (map initWidth cols) [] rows;
          c1 = emitAll (printSeparator colWidths) c;
          c2 = emitAll (printCells colWidths cols) c1;
          c3 = emitAll (printSeparator colWidths) c2;
          c4 = emitAll (concat (map (printCells colWidths) allRows)) c3;
          c5 = emitAll (printSeparator colWidths) c4;
          c6 = emitAll [rowCountLine (length allRows)] c5;
          c7 = (if timingEnabled c6
                then emit (''Time: '' @ showSeconds elapsed @ '' sec'' @ [CHR 0x0A]) c6
                else c6)
      in emit [CHR 0x0A] c7)"

section \<open>The executor\<close>

definition printError :: "string \<Rightarrow> CLI \<Rightarrow> CLI" where
  "printError err c =
     emit (err @ [CHR 0x0A, CHR 0x0A])
       (emit (''Msg 50000, Level 16, State 1'' @ [CHR 0x0A]) c)"

definition executeQuery :: "driver \<Rightarrow> string \<Rightarrow> CLI \<Rightarrow> CLI" where
  "executeQuery d sqlStr c =
     (let c1 = c\<lparr>calls := calls c @ [QueryContext sqlStr]\<rparr> in
      case queryReply d (calls c) sqlStr of
        Inl err \<Rightarrow> printError err c1
      | Inr (cols, rows) \<Rightarrow> displayTable (elapsedMs d (calls c1)) cols rows c1)"

definition executeCommand :: "driver \<Rightarrow> string \<Rightarrow> CLI \<Rightarrow> CLI" where
  "executeCommand d sqlStr c =
     (let c1 = c\<lparr>calls := calls c @ [ExecContext sqlStr]\<rparr> in
      case execReply d (calls c) sqlStr of
        Inl err \<Rightarrow> printError err c1
      | Inr affected \<Rightarrow>
          (let elapsed = elapsedMs d (calls c1);
               c2 = (if affected = 0 then emit (''(0 rows affected)'' @ [CHR 0x0A]) c1
                     else if affected = 1 then emit (''(1 row affected)'' @ [CHR 0x0A]) c1
                     else emit (''('' @ showInt affected @ '' rows affected)'' @ [CHR 0x0A]) c1);
               c3 = (if timingEnabled c2
                     then emit (''Time: '' @ showSeconds elapsed @ '' sec'' @ [CHR 0x0A]) c2
                     else c2)
           in emit [CHR 0x0A] c3))"

definition executeSQL :: "driver \<Rightarrow> string \<Rightarrow> CLI \<Rightarrow> CLI" where
  "executeSQL d sqlStr0 c =
     (let sqlStr = TrimSpace sqlStr0 in
      if sqlStr = [] then c
      else if isQuery sqlStr then executeQuery d sqlStr c
      else executeCommand d sqlStr c)"

section \<open>The meta-commands\<close>

definition useDatabase :: "driver \<Rightarrow> string \<Rightarrow> CLI \<Rightarrow> CLI" where
  "useDatabase d dbName c =
     (let stmt = ''USE ['' @ dbName @ '']'';
          c1 = c\<lparr>calls := calls c @ [Exec stmt]\<rparr> in
      case execReply d (calls c) stmt of
        Inl err \<Rightarrow> emit (''Error: '' @ err @ [CHR 0x0A]) c1
      | Inr n \<Rightarrow>
          emit (''Changed database context to '' @ [CHR 0x27] @ dbName @ [CHR 0x27] @ ''.'' @
                [CHR 0x0A])
            (c1\<lparr>database := dbName\<rparr>))"

definition helpLines :: "string list" where
  "helpLines =
     [[],
      ''SQL Server Commands'',
      ''==================='',
      [],
      ''General:'',
      ''  help                    Show this help'',
      ''  exit, quit              Exit'',
      ''  clear, cls              Clear screen'',
      ''  timing                  Toggle timing'',
      ''  GO                      Execute batch (SQL Server style)'',
      [],
      ''Database:'',
      ''  USE <database>          Change database'',
      [],
      ''Query Commands:'',
      ''  SELECT ...              Query data'',
      ''  INSERT ...              Insert data'',
      ''  UPDATE ...              Update data'',
      ''  DELETE ...              Delete data'',
      ''  '',
      ''Schema Commands:'',
      ''  CREATE TABLE ...        Create table'',
      ''  ALTER TABLE ...         Alter table'',
      ''  DROP TABLE ...          Drop table'',
      ''  CREATE INDEX ...        Create index'',
      ''  '',
      ''System Stored Procedures:'',
      ''  sp_help [table]         Show table info'',
      ''  sp_databases            List databases'',
      ''  sp_tables               List tables'',
      ''  sp_columns <table>      List columns'',
      ''  sp_who                  Show active connections'',
      ''  '',
      ''Information Schema:'',
      ''  SELECT * FROM INFORMATION_SCHEMA.TABLES'',
      ''  SELECT * FROM INFORMATION_SCHEMA.COLUMNS WHERE TABLE_NAME = '' @ [CHR 0x27] @ ''table'' @ [CHR 0x27],
      ''  '',
      ''System Views:'',
      ''  SELECT * FROM sys.databases'',
      ''  SELECT * FROM sys.tables'',
      ''  SELECT * FROM sys.columns WHERE object_id = OBJECT_ID('' @ [CHR 0x27] @ ''table'' @ [CHR 0x27] @ '')'',
      [],
      ''For more information: https://docs.microsoft.com/sql/'']"

definition helpText :: string where
  "helpText = concat (map (\<lambda>l. l @ [CHR 0x0A]) helpLines)"

definition showHelp :: "CLI \<Rightarrow> CLI" where
  "showHelp c = emit helpText c"

text \<open>\<open>handleSpecialCommand\<close> returns whether the text was a meta-command.\<close>

definition handleSpecialCommand :: "driver \<Rightarrow> string \<Rightarrow> CLI \<Rightarrow> bool \<times> CLI" where
  "handleSpecialCommand d cmd c =
     (let cmdLower = ToLower (TrimSpace cmd) in
      if cmdLower = ''exit'' \<or> cmdLower = ''quit'' then (True, emit [CHR 0x0A] c)
      else if cmdLower = ''help'' then (True, showHelp c)
      else if cmdLower = ''timing'' then
        (let c1 = c\<lparr>timingEnabled := \<not> timingEnabled c\<rparr> in
         if timingEnabled c1 then (True, emit (''Timing enabled'' @ [CHR 0x0A]) c1)
         else (True, emit (''Timing disabled'' @ [CHR 0x0A]) c1))
      else if cmdLower = ''clear'' \<or> cmdLower = ''cls'' then
        (True, emit [CHR 0x1B, CHR ''['', CHR ''2'', CHR ''J'', CHR 0x1B, CHR ''['', CHR ''H''] c)
      else if HasPrefix cmdLower ''use '' then
        (let parts = Fields cmd in
         if length parts \<ge> 2 then (True, useDatabase d (parts ! 1) c) else (True, c))
      else (False, c))"

section \<open>The session loop\<close>

lemma readLoop_shorter:
  "readLoop c lines es = Some (s, c1, rest) \<Longrightarrow> length rest < length es"
proof (induction es arbitrary: c lines)
  case Nil
  then show ?case by simp
next
  case (Cons e es)
  show ?case
  proof (cases "readRound lines (ReadLine e)")
    case (Return t)
    with Cons.prems show ?thesis by simp
  next
    case (Continue lines1)
    with Cons.prems have "readLoop (emit ''  -> '' c) lines1 es = Some (s, c1, rest)"
      by simp
    from Cons.IH [OF this] show ?thesis by simp
  qed
qed

text \<open>
  \<open>Start\<close> returns \<open>nil\<close> or does not return. \<open>Some c\<close> is the return, with the
  session as it is then; \<open>None\<close> is the loop still reading when the events given are
  used up.
\<close>

function Start :: "driver \<Rightarrow> CLI \<Rightarrow> event list \<Rightarrow> CLI option" where
  "Start d c es =
     (case readMultiLine (emitAll [Format (getPrompt c)] c) es of
        None \<Rightarrow> None
      | Some (sqlStr0, c1, rest) \<Rightarrow>
          if sqlStr0 = [] then Start d c1 rest
          else
            (let sqlStr = TrimSpace sqlStr0;
                 (handled, c2) = handleSpecialCommand d sqlStr c1
             in if handled then
                  (if ToLower sqlStr = ''exit'' \<or> ToLower sqlStr = ''quit'' then Some c2
                   else Start d c2 rest)
                else Start d (executeSQL d sqlStr c2) rest))"
  by pat_completeness auto
termination
  by (relation "measure (\<lambda>(d, c, es). length es)")
     (auto simp: readMultiLine_def dest: readLoop_shorter)

declare Start.simps [simp del]

section \<open>Notions used in the statements\<close>

text \<open>The value of column \<open>i\<close> that \<open>scanRow\<close> reads from a row.\<close>

definition valAt :: "sqlvalue list \<Rightarrow> nat \<Rightarrow> sqlvalue" where
  "valAt vals i = (if i < length vals then vals ! i else VNull)"

text \<open>
  The footer as the specification words it: the count of rows in the singular for one
  row and in the plural otherwise, then the elapsed time when timing is enabled, then an
  empty line.
\<close>

definition footer_spec :: "bool \<Rightarrow> int \<Rightarrow> nat \<Rightarrow> written list" where
  "footer_spec timing n ms =
     [Text ((if n = 0 then ''(0 rows affected)''
             else if n = 1 then ''(1 row affected)''
             else ''('' @ showInt n @ '' rows affected)'') @ [CHR 0x0A])] @
     (if timing then [Text (''Time: '' @ showSeconds ms @ '' sec'' @ [CHR 0x0A])] else []) @
     [Text [CHR 0x0A]]"

definition isDigit :: "char \<Rightarrow> bool" where
  "isDigit c = (48 \<le> (of_char c :: nat) \<and> (of_char c :: nat) \<le> 57)"

text \<open>The number that a text of decimal digits denotes.\<close>

definition digitVal :: "char \<Rightarrow> nat" where
  "digitVal c = of_char c - 48"

definition valNat :: "string \<Rightarrow> nat" where
  "valNat s = foldl (\<lambda>a c. 10 * a + digitVal c) 0 s"

text \<open>
  A driver for the examples: \<open>USE [nodb]\<close> fails, every other statement affects three
  rows, every query answers with two columns and two rows, and the clock gives 12 ms.
\<close>

definition sampleDriver :: driver where
  "sampleDriver =
     \<lparr>execReply = (\<lambda>h s. if s = ''USE [nodb]'' then Inl ''Database does not exist'' else Inr 3),
      queryReply = (\<lambda>h s. Inr ([''id'', ''name''],
                       [[VOther ''1'', VNull], [VOther ''2'', VBytes ''abc'']])),
      elapsedMs = (\<lambda>h. 12)\<rparr>"

section \<open>Properties of the classifier\<close>

lemma upperByte_not_lower:
  "\<not> (97 \<le> (of_char (upperByte c) :: nat) \<and> (of_char (upperByte c) :: nat) \<le> 122)"
  by (auto simp: upperByte_def Let_def)

text \<open>
  Upper-casing leaves no lower-case letter, while the five stored-procedure prefixes of
  \<open>queryPrefixes\<close> hold one at index 5: none of them is a prefix of an upper-cased text.
\<close>

lemma ToUpper_nth_not_lower:
  assumes "i < length s"
  shows "\<not> (97 \<le> (of_char (ToUpper s ! i) :: nat) \<and> (of_char (ToUpper s ! i) :: nat) \<le> 122)"
  using assms upperByte_not_lower [of "s ! i"] by (simp add: ToUpper_def)

lemma HasPrefix_nth:
  assumes "HasPrefix u p" and "i < length p"
  shows "i < length u \<and> u ! i = p ! i"
proof -
  from assms(1) have eq: "take (length p) u = p" by (simp add: HasPrefix_def)
  then have "length p \<le> length u" by (metis length_take min.cobounded1)
  with assms(2) have "i < length u" by simp
  moreover have "u ! i = take (length p) u ! i" using assms(2) by simp
  ultimately show ?thesis using eq by simp
qed

lemma no_lower_prefix:
  assumes "i < length p" and "97 \<le> (of_char (p ! i) :: nat)" and "(of_char (p ! i) :: nat) \<le> 122"
  shows "\<not> HasPrefix (ToUpper s) p"
proof
  assume "HasPrefix (ToUpper s) p"
  from HasPrefix_nth [OF this assms(1)]
  have "i < length (ToUpper s)" and "ToUpper s ! i = p ! i" by simp_all
  moreover from this(1) have "i < length s" by (simp add: ToUpper_def)
  ultimately show False using ToUpper_nth_not_lower [of i s] assms(2,3) by simp
qed

lemma isQuery_keywords_only:
  "isQuery s =
     (HasPrefix (ToUpper (TrimSpace s)) ''SELECT'' \<or> HasPrefix (ToUpper (TrimSpace s)) ''SHOW'' \<or>
      HasPrefix (ToUpper (TrimSpace s)) ''WITH'' \<or> HasPrefix (ToUpper (TrimSpace s)) ''EXPLAIN'')"
proof -
  have "\<not> HasPrefix (ToUpper (TrimSpace s)) ''EXEC sp_help''"
    by (rule no_lower_prefix [where i = 5]) simp_all
  moreover have "\<not> HasPrefix (ToUpper (TrimSpace s)) ''EXEC sp_databases''"
    by (rule no_lower_prefix [where i = 5]) simp_all
  moreover have "\<not> HasPrefix (ToUpper (TrimSpace s)) ''EXEC sp_tables''"
    by (rule no_lower_prefix [where i = 5]) simp_all
  moreover have "\<not> HasPrefix (ToUpper (TrimSpace s)) ''EXEC sp_columns''"
    by (rule no_lower_prefix [where i = 5]) simp_all
  moreover have "\<not> HasPrefix (ToUpper (TrimSpace s)) ''EXEC sp_who''"
    by (rule no_lower_prefix [where i = 5]) simp_all
  ultimately show ?thesis by (simp add: isQuery_def queryPrefixes_def)
qed

text \<open>
  C1: a statement that begins, in any case, with SELECT, SHOW, WITH, EXPLAIN or with one
  of EXEC sp_help, EXEC sp_databases, EXEC sp_tables, EXEC sp_columns, EXEC sp_who is a
  query, and "exec sp_who" and "EXEC SP_WHO" are both queries. The code compares the
  upper-cased statement with the stored-procedure prefixes as they are written, in mixed
  case: it answers that none of these statements is a query, while the keywords are
  matched in any case.
\<close>

theorem isQuery_stored_procedure_not_query:
  "isQuery ''exec sp_who'' = False \<and> isQuery ''EXEC SP_WHO'' = False \<and>
   isQuery ''EXEC sp_who'' = False \<and> isQuery ''exec sp_help t'' = False \<and>
   isQuery ''  select * from t'' = True \<and> isQuery ''update t set x=1'' = False"
  by code_simp

section \<open>Properties of the batch accumulator\<close>

lemma readRound_exit: "readRound lines (Inr ''exit'') = Continue (lines @ [''exit''])"
  unfolding readRound_def by code_simp

lemma readLoop_EOF: "readLoop c lines (replicate n EOF) = None"
  by (induction n arbitrary: c lines) (simp_all add: readRound_exit)

text \<open>The loop writes prompts only: the other fields of the session are as before.\<close>

lemma readLoop_frame:
  "readLoop c lines es = Some (s, c1, rest) \<Longrightarrow>
   database c1 = database c \<and> calls c1 = calls c \<and> timingEnabled c1 = timingEnabled c \<and>
   maxRows c1 = maxRows c"
proof (induction es arbitrary: c lines)
  case Nil
  then show ?case by simp
next
  case (Cons e es)
  show ?case
  proof (cases "readRound lines (ReadLine e)")
    case (Return t)
    with Cons.prems show ?thesis by simp
  next
    case (Continue lines1)
    with Cons.prems have "readLoop (emit ''  -> '' c) lines1 es = Some (s, c1, rest)" by simp
    from Cons.IH [OF this] show ?thesis by (simp add: emit_def)
  qed
qed

text \<open>
  C2: the end of the input on the first line of a batch is handled as the line \<open>exit\<close>
  typed by the user, the round ends and \<open>Start\<close> returns. In the code the reader does
  turn the end of the input into the line \<open>exit\<close>, but that line ends no batch: it is
  neither GO nor closed by a semicolon, so the accumulator asks for one more line. With
  a source that is at its end every read gives \<open>exit\<close> again, and neither
  \<open>readMultiLine\<close> nor \<open>Start\<close> returns, however many reads are made.
\<close>

theorem Start_EOF_never_returns:
  "readMultiLine c (replicate n EOF) = None \<and> Start d c (replicate n EOF) = None"
  by (simp add: Start.simps readMultiLine_def readLoop_EOF)

text \<open>
  A typed \<open>exit\<close> leaves the loop waiting in the same way; the session ends when the
  line is closed by a semicolon, or when \<open>GO\<close> follows it or the end of the input.
\<close>

lemma EOF_then_GO:
  "map_option database (Start sampleDriver (NewCLI ''master'') [EOF, Line ''GO'']) = Some ''master'' \<and>
   Start sampleDriver (NewCLI ''master'') [Line ''exit''] = None \<and>
   map_option database (Start sampleDriver (NewCLI ''master'') [Line ''exit;'']) = Some ''master''"
  by code_simp

text \<open>
  C6: from the lines \<open>SELECT 1\<close> and \<open>GO\<close> the accumulator returns \<open>SELECT 1\<close>,
  and from the line \<open>SELECT 1;\<close> it returns \<open>SELECT 1\<close>. In the first case one
  continuation prompt has been written; in both all the lines have been read.
\<close>

theorem readMultiLine_examples:
  "readMultiLine c [Line ''SELECT 1'', Line ''GO''] = Some (''SELECT 1'', emit ''  -> '' c, []) \<and>
   readMultiLine c [Line ''SELECT 1;''] = Some (''SELECT 1'', c, [])"
  by code_simp

text \<open>
  C4, as the code has it: an interrupt is an empty line. On the first line of a batch
  the round returns the empty statement and nothing is kept. On a continuation line the
  empty line is appended to the batch, the continuation prompt is written and the loop
  reads on.
\<close>

theorem readRound_interrupt:
  "readRound lines (ReadLine Interrupted) =
     (if lines = [] then Return [] else Continue (lines @ [[]])) \<and>
   readLoop c lines (Interrupted # es) =
     (if lines = [] then Some ([], c, es) else readLoop (emit ''  -> '' c) (lines @ [[]]) es)"
  by (simp add: readRound_def TrimSpace_def ToUpper_def HasSuffix_def)

theorem readRound_interrupt_witness:
  "readRound [''SELECT 1''] (ReadLine Interrupted) = Continue [''SELECT 1'', []] \<and>
   readLoop (NewCLI ''master'') [''SELECT 1''] [Interrupted, Line ''FROM t;''] =
     readLoop (emit ''  -> '' (NewCLI ''master'')) [''SELECT 1'', []] [Line ''FROM t;'']"
  using readRound_interrupt [of "[''SELECT 1'']" "NewCLI ''master''" "[Line ''FROM t;'']"]
  by simp

text \<open>
  The claim as the specification states it, that an interrupt appends nothing, fails on a
  continuation line: the batch is one line longer after the round, and the statement
  has an empty line in it.
\<close>

theorem interrupt_appends_counterexample:
  "readRound [''SELECT 1''] (ReadLine Interrupted) \<noteq> Continue [''SELECT 1''] \<and>
   readMultiLine (NewCLI ''master'') [Line ''SELECT 1'', Interrupted, Line ''FROM t;''] =
     Some (''SELECT 1'' @ [CHR 0x0A, CHR 0x0A] @ ''FROM t'',
           emit ''  -> '' (emit ''  -> '' (NewCLI ''master'')), [])"
  by code_simp

section \<open>Properties of the table renderer\<close>

lemma scanRow_length:
  "scanRow ws vals = (ws1, strs) \<Longrightarrow> length ws1 = length ws \<and> length strs = length ws"
  by (induction ws arbitrary: vals ws1 strs) (auto simp: Let_def split: prod.splits)

lemma scanRow_nth:
  "i < length ws \<Longrightarrow>
   (fst (scanRow ws vals) ! i, snd (scanRow ws vals) ! i) = fitCell (ws ! i) (cellText (valAt vals i))"
proof (induction ws arbitrary: vals i)
  case Nil
  then show ?case by simp
next
  case (Cons w ws)
  show ?case
  proof (cases i)
    case 0
    then show ?thesis by (cases vals) (auto simp: valAt_def Let_def split: prod.splits)
  next
    case (Suc j)
    with Cons.prems have j: "j < length ws" by simp
    have "valAt (tl vals) j = valAt vals i" using Suc by (cases vals) (auto simp: valAt_def)
    with Cons.IH [OF j, of "tl vals"] Suc show ?thesis
      by (auto simp: Let_def split: prod.splits)
  qed
qed


lemma fitCell_mono: "w \<le> 50 \<Longrightarrow> w \<le> fst (fitCell w s)"
  by (simp add: fitCell_def)

lemma fitCell_bound: "w \<le> 50 \<Longrightarrow> fst (fitCell w s) \<le> 50"
  by (simp add: fitCell_def)


lemma fitCell_capped:
  "fitCell 50 s = (50, if 50 < length s then take 47 s @ ''...'' else s)"
  by (simp add: fitCell_def)

lemma scanRow_fst_nth:
  "scanRow ws vals = (ws1, strs) \<Longrightarrow> i < length ws \<Longrightarrow>
   ws1 ! i = fst (fitCell (ws ! i) (cellText (valAt vals i)))"
  using scanRow_nth [of i ws vals] by (simp add: prod_eq_iff)

lemma scanRow_snd_nth:
  "scanRow ws vals = (ws1, strs) \<Longrightarrow> i < length ws \<Longrightarrow>
   strs ! i = snd (fitCell (ws ! i) (cellText (valAt vals i)))"
  using scanRow_nth [of i ws vals] by (simp add: prod_eq_iff)

lemma fetchRows_shape:
  "fetchRows cap ws acc rows = (ws', out, left) \<Longrightarrow>
   length ws' = length ws \<and>
   (\<exists>new. out = acc @ new \<and> length new \<le> length rows \<and> left = drop (length new) rows)"
proof (induction rows arbitrary: ws acc)
  case Nil
  then show ?case by simp
next
  case (Cons r rest)
  obtain ws1 strs where sr: "scanRow ws r = (ws1, strs)" by (cases "scanRow ws r")
  have len: "length ws1 = length ws" using scanRow_length [OF sr] by simp
  show ?case
  proof (cases "int (length (acc @ [strs])) \<ge> cap")
    case True
    with Cons.prems sr have "ws' = ws1" "out = acc @ [strs]" "left = rest" by simp_all
    then show ?thesis using len by simp
  next
    case False
    with Cons.prems sr have "fetchRows cap ws1 (acc @ [strs]) rest = (ws', out, left)" by simp
    from Cons.IH [OF this] obtain new where
      "length ws' = length ws1" "out = (acc @ [strs]) @ new" "length new \<le> length rest"
      "left = drop (length new) rest" by blast
    then show ?thesis using len by (intro conjI exI [of _ "strs # new"]) simp_all
  qed
qed

lemma fetchRows_mono:
  "fetchRows cap ws acc rows = (ws', out, left) \<Longrightarrow> i < length ws \<Longrightarrow> ws ! i \<le> 50 \<Longrightarrow>
   ws ! i \<le> ws' ! i"
proof (induction rows arbitrary: ws acc)
  case Nil
  then show ?case by simp
next
  case (Cons r rest)
  obtain ws1 strs where sr: "scanRow ws r = (ws1, strs)" by (cases "scanRow ws r")
  have len: "length ws1 = length ws" using scanRow_length [OF sr] by simp
  have step: "ws ! i \<le> ws1 ! i" "ws1 ! i \<le> 50"
    using scanRow_fst_nth [OF sr Cons.prems(2)] Cons.prems(3)
    by (simp_all add: fitCell_mono fitCell_bound)
  show ?case
  proof (cases "int (length (acc @ [strs])) \<ge> cap")
    case True
    with Cons.prems sr have "ws' = ws1" by simp
    then show ?thesis using step by simp
  next
    case False
    with Cons.prems sr have "fetchRows cap ws1 (acc @ [strs]) rest = (ws', out, left)" by simp
    from Cons.IH [OF this] Cons.prems(2) len step have "ws1 ! i \<le> ws' ! i" by simp
    then show ?thesis using step by simp
  qed
qed

lemma fetchRows_bound:
  "fetchRows cap ws acc rows = (ws', out, left) \<Longrightarrow> i < length ws \<Longrightarrow> ws ! i \<le> 50 \<Longrightarrow>
   ws' ! i \<le> 50"
proof (induction rows arbitrary: ws acc)
  case Nil
  then show ?case by simp
next
  case (Cons r rest)
  obtain ws1 strs where sr: "scanRow ws r = (ws1, strs)" by (cases "scanRow ws r")
  have len: "length ws1 = length ws" using scanRow_length [OF sr] by simp
  have step: "ws1 ! i \<le> 50"
    using scanRow_fst_nth [OF sr Cons.prems(2)] Cons.prems(3) by (simp add: fitCell_bound)
  show ?case
  proof (cases "int (length (acc @ [strs])) \<ge> cap")
    case True
    with Cons.prems sr have "ws' = ws1" by simp
    then show ?thesis using step by simp
  next
    case False
    with Cons.prems sr have "fetchRows cap ws1 (acc @ [strs]) rest = (ws', out, left)" by simp
    from Cons.IH [OF this] Cons.prems(2) len step show ?thesis by simp
  qed
qed

text \<open>
  The cell of column \<open>i\<close> in the \<open>k\<close>-th row read is the text fitted to a width \<open>w\<close>
  that lies between the width before the loop and the width after it.
\<close>

lemma fetchRows_cell:
  "fetchRows cap ws acc rows = (ws', out, left) \<Longrightarrow> i < length ws \<Longrightarrow> ws ! i \<le> 50 \<Longrightarrow>
   k < length out - length acc \<Longrightarrow>
   \<exists>w. ws ! i \<le> w \<and> w \<le> 50 \<and> fst (fitCell w (cellText (valAt (rows ! k) i))) \<le> ws' ! i \<and>
       out ! (length acc + k) ! i = snd (fitCell w (cellText (valAt (rows ! k) i)))"
proof (induction rows arbitrary: ws acc k)
  case Nil
  then show ?case by simp
next
  case (Cons r rest)
  obtain ws1 strs where sr: "scanRow ws r = (ws1, strs)" by (cases "scanRow ws r")
  have len: "length ws1 = length ws" using scanRow_length [OF sr] by simp
  have w1: "ws1 ! i = fst (fitCell (ws ! i) (cellText (valAt r i)))"
    by (rule scanRow_fst_nth [OF sr Cons.prems(2)])
  have s1: "strs ! i = snd (fitCell (ws ! i) (cellText (valAt r i)))"
    by (rule scanRow_snd_nth [OF sr Cons.prems(2)])
  have b1: "ws ! i \<le> ws1 ! i" "ws1 ! i \<le> 50"
    using w1 Cons.prems(3) by (simp_all add: fitCell_mono fitCell_bound)
  show ?case
  proof (cases "int (length (acc @ [strs])) \<ge> cap")
    case True
    with Cons.prems sr have eq: "ws' = ws1" "out = acc @ [strs]" by simp_all
    with Cons.prems(4) have "k = 0" by simp
    then show ?thesis using eq w1 s1 Cons.prems(3) by (intro exI [of _ "ws ! i"]) simp
  next
    case False
    with Cons.prems sr have rec: "fetchRows cap ws1 (acc @ [strs]) rest = (ws', out, left)"
      by simp
    from fetchRows_shape [OF rec] obtain new where out: "out = (acc @ [strs]) @ new" by blast
    have i1: "i < length ws1" using len Cons.prems(2) by simp
    show ?thesis
    proof (cases k)
      case 0
      have "ws1 ! i \<le> ws' ! i" by (rule fetchRows_mono [OF rec i1 b1(2)])
      moreover have "out ! (length acc + k) = strs" using out 0 by (simp add: nth_append)
      ultimately show ?thesis using 0 w1 s1 Cons.prems(3) by (intro exI [of _ "ws ! i"]) simp
    next
      case (Suc j)
      with Cons.prems(4) have j: "j < length out - length (acc @ [strs])" by simp
      from Cons.IH [OF rec i1 b1(2) j] obtain w where
        w: "ws1 ! i \<le> w" "w \<le> 50" "fst (fitCell w (cellText (valAt (rest ! j) i))) \<le> ws' ! i"
           "out ! (length (acc @ [strs]) + j) ! i = snd (fitCell w (cellText (valAt (rest ! j) i)))"
        by blast
      with b1 Suc show ?thesis by (intro exI [of _ w]) simp
    qed
  qed
qed


lemma valAt_nth: "i < length vals \<Longrightarrow> valAt vals i = vals ! i"
  by (simp add: valAt_def)


lemma fetchRows_count:
  "fetchRows cap ws acc rows = (ws', out, left) \<Longrightarrow> int (length acc) < cap \<Longrightarrow>
   cap \<le> int (length acc + length rows) \<Longrightarrow>
   int (length out) = cap \<and> left = drop (nat cap - length acc) rows"
proof (induction rows arbitrary: ws acc)
  case Nil
  then show ?case by simp
next
  case (Cons r rest)
  obtain ws1 strs where sr: "scanRow ws r = (ws1, strs)" by (cases "scanRow ws r")
  show ?case
  proof (cases "int (length (acc @ [strs])) \<ge> cap")
    case True
    with Cons.prems sr have eq: "out = acc @ [strs]" "left = rest" by simp_all
    from True Cons.prems(2) have c: "cap = int (length acc) + 1" by simp
    then have "nat cap - length acc = 1" by simp
    then show ?thesis using eq c by simp
  next
    case False
    with Cons.prems sr have rec: "fetchRows cap ws1 (acc @ [strs]) rest = (ws', out, left)"
      by simp
    from False have lt: "int (length (acc @ [strs])) < cap" by simp
    from Cons.prems(3) have le: "cap \<le> int (length (acc @ [strs]) + length rest)" by simp
    from Cons.IH [OF rec lt le]
    have "int (length out) = cap" "left = drop (nat cap - length (acc @ [strs])) rest" by simp_all
    moreover from lt have "nat cap - length acc = Suc (nat cap - length (acc @ [strs]))" by simp
    ultimately show ?thesis by simp
  qed
qed



text \<open>
  C5, as the code has it: once the width of a column is 50 it stays 50 to the end of the
  result set, and a further value of that column is cut to 47 bytes and three dots when
  its text is longer than 50 bytes; a value of at most 50 bytes is kept as it is. The
  loop is taken in any state: \<open>colWidths0\<close> and \<open>allRows0\<close> are the widths and the rows
  kept when the rows \<open>rows\<close> are still to come.
\<close>

theorem capped_column_stays_capped:
  assumes run: "fetchRows cap colWidths0 allRows0 rows = (colWidths, allRows, rest)"
    and i: "i < length colWidths0"
    and capped: "colWidths0 ! i = 50"
  shows "colWidths ! i = 50 \<and>
         (\<forall>k < length allRows - length allRows0. i < length (rows ! k) \<longrightarrow>
            allRows ! (length allRows0 + k) ! i =
              (if 50 < length (cellText (rows ! k ! i))
               then take 47 (cellText (rows ! k ! i)) @ ''...''
               else cellText (rows ! k ! i)))"
proof -
  have b0: "colWidths0 ! i \<le> 50" using capped by simp
  have hi: "colWidths ! i \<le> 50" by (rule fetchRows_bound [OF run i b0])
  have lo: "colWidths0 ! i \<le> colWidths ! i" by (rule fetchRows_mono [OF run i b0])
  have width: "colWidths ! i = 50" using hi lo capped by simp
  have cells: "allRows ! (length allRows0 + k) ! i =
      (if 50 < length (cellText (rows ! k ! i))
       then take 47 (cellText (rows ! k ! i)) @ ''...'' else cellText (rows ! k ! i))"
    if k: "k < length allRows - length allRows0" and ik: "i < length (rows ! k)" for k
  proof -
    from fetchRows_cell [OF run i b0 k] obtain w where
      w: "colWidths0 ! i \<le> w" "w \<le> 50"
         "allRows ! (length allRows0 + k) ! i = snd (fitCell w (cellText (valAt (rows ! k) i)))"
      by blast
    have "w = 50" using w(1,2) capped by simp
    then show ?thesis using w(3) valAt_nth [OF ik] by (simp add: fitCell_capped)
  qed
  show ?thesis using width cells by blast
qed

theorem capped_column_stays_capped_witness:
  "fetchRows 1000 [50] [] [[VBytes ''abc''], [VBytes (replicate 60 CHR ''x'')]] =
     ([50], [[''abc''], [replicate 47 CHR ''x'' @ ''...'']], []) \<and>
   [[''abc''], [replicate 47 CHR ''x'' @ ''...'']] ! 0 ! 0 = ''abc'' \<and>
   [[''abc''], [replicate 47 CHR ''x'' @ ''...'']] ! 1 ! 0 =
     take 47 (replicate 60 CHR ''x'') @ ''...''"
proof -
  have run: "fetchRows 1000 [50] [] [[VBytes ''abc''], [VBytes (replicate 60 CHR ''x'')]] =
     ([50], [[''abc''], [replicate 47 CHR ''x'' @ ''...'']], [])"
    by code_simp
  from capped_column_stays_capped [OF run, of 0] show ?thesis using run by simp
qed

text \<open>
  The claim as the specification states it, that every further value is cut whatever its
  length, fails: after a value of 60 bytes has brought the width to 50, the value
  \<open>abc\<close> of the next row is rendered as \<open>abc\<close>.
\<close>

theorem short_value_kept_counterexample:
  "fetchRows 1000 (map initWidth [''name'']) []
     [[VBytes (replicate 60 CHR ''x'')], [VBytes ''abc'']] =
     ([50], [[replicate 47 CHR ''x'' @ ''...''], [''abc'']], []) \<and>
   ''abc'' \<noteq> take 47 ''abc'' @ ''...''"
  by code_simp

section \<open>Properties of the footer\<close>

lemma term_out_emit [simp]: "term_out (emit s c) = term_out c @ [Text s]"
  by (simp add: emit_def)

lemma term_out_emitAll [simp]: "term_out (emitAll ws c) = term_out c @ ws"
  by (simp add: emitAll_def)

lemma timing_emit [simp]: "timingEnabled (emit s c) = timingEnabled c"
  by (simp add: emit_def)

lemma timing_emitAll [simp]: "timingEnabled (emitAll ws c) = timingEnabled c"
  by (simp add: emitAll_def)

lemma rowCountLine_footer:
  "[rowCountLine n] @ (if t then [Text (''Time: '' @ showSeconds ms @ '' sec'' @ [CHR 0x0A])] else []) @ [Text [CHR 0x0A]]
   = footer_spec t (int n) ms"
  by (simp add: rowCountLine_def footer_spec_def)

lemma displayTable_out:
  assumes "fetchRows (maxRows c) (map initWidth cols) [] rows = (colWidths, allRows, rest)"
  shows "term_out (displayTable elapsed cols rows c) =
     term_out c @ printSeparator colWidths @ printCells colWidths cols @ printSeparator colWidths @
     concat (map (printCells colWidths) allRows) @ printSeparator colWidths @
     footer_spec (timingEnabled c) (int (length allRows)) elapsed"
  using assms by (simp add: displayTable_def Let_def rowCountLine_footer [symmetric])

lemma executeCommand_out:
  assumes "execReply d (calls c) sqlStr = Inr n"
  shows "term_out (executeCommand d sqlStr c) =
     term_out c @ footer_spec (timingEnabled c) n (elapsedMs d (calls c @ [ExecContext sqlStr]))"
  using assms by (simp add: executeCommand_def Let_def footer_spec_def)

lemma isDigit_digit: "d < 10 \<Longrightarrow> isDigit (digit d)"
  by (simp add: isDigit_def digit_def)

lemma showNat_digits: "showNat n \<noteq> [] \<and> list_all isDigit (showNat n)"
proof (induction n rule: showNat.induct)
  case (1 n)
  show ?case
  proof (cases "n < 10")
    case True
    then show ?thesis by (subst showNat.simps, subst showNat.simps) (simp add: isDigit_digit)
  next
    case False
    with 1 have "showNat (n div 10) \<noteq> [] \<and> list_all isDigit (showNat (n div 10))" by simp
    moreover have "isDigit (digit (n mod 10))" by (simp add: isDigit_digit)
    ultimately show ?thesis using False by (subst showNat.simps, subst showNat.simps) simp
  qed
qed

lemma digitVal_digit: "d < 10 \<Longrightarrow> digitVal (digit d) = d"
  by (simp add: digitVal_def digit_def)

lemma showNat_value: "valNat (showNat n) = n"
proof (induction n rule: showNat.induct)
  case (1 n)
  show ?case
  proof (cases "n < 10")
    case True
    then show ?thesis by (subst showNat.simps) (simp add: valNat_def digitVal_def digit_def)
  next
    case False
    with 1 have "valNat (showNat (n div 10)) = n div 10" by simp
    then show ?thesis using False
      by (subst showNat.simps) (simp add: valNat_def digitVal_def digit_def)
  qed
qed

lemma showSeconds_shape:
  "\<exists>ds fs. showSeconds ms = ds @ ''.'' @ fs \<and> ds \<noteq> [] \<and> list_all isDigit ds \<and>
     length fs = 3 \<and> list_all isDigit fs \<and> valNat ds = ms div 1000 \<and> valNat fs = ms mod 1000"
proof -
  let ?fs = "[digit (ms mod 1000 div 100), digit (ms mod 100 div 10), digit (ms mod 10)]"
  have "showSeconds ms = showNat (ms div 1000) @ ''.'' @ ?fs" by (simp add: showSeconds_def)
  moreover have "list_all isDigit ?fs" by (simp add: isDigit_digit)
  moreover have "valNat ?fs = ms mod 1000"
  proof -
    have a: "ms mod 1000 = 100 * (ms mod 1000 div 100) + ms mod 1000 mod 100" by simp
    have b: "ms mod 1000 mod 100 = ms mod 100" by (simp add: mod_mod_cancel)
    have c: "ms mod 100 = 10 * (ms mod 100 div 10) + ms mod 100 mod 10" by simp
    have d: "ms mod 100 mod 10 = ms mod 10" by (simp add: mod_mod_cancel)
    have e: "ms mod 1000 div 100 < 10" "ms mod 100 div 10 < 10" "ms mod 10 < 10" by simp_all
    have "valNat ?fs = 100 * (ms mod 1000 div 100) + 10 * (ms mod 100 div 10) + ms mod 10"
      unfolding valNat_def by (simp add: digitVal_digit [OF e(1)] digitVal_digit [OF e(2)] digitVal_digit [OF e(3)])
    also have "\<dots> = ms mod 1000" using a b c d by linarith
    finally show ?thesis .
  qed
  ultimately show ?thesis using showNat_digits [of "ms div 1000"] showNat_value [of "ms div 1000"]
    by (intro exI [of _ "showNat (ms div 1000)"] exI [of _ ?fs]) simp
qed

text \<open>
  C9: the footer of an execution. After a statement that is not a query and succeeds,
  the writes are the footer for the count the driver gives; after a query they are the
  table and then the footer for the number of rows kept. The footer is the line of the
  count, in the singular for 1 and in the plural for 0 and from 2 on, then the line of
  the elapsed time when timing is enabled and only then, and an empty line. The seconds
  are written as digits, a point and exactly three digits.
\<close>

theorem footer_after_every_execution:
  assumes exec: "execReply d (calls c) sqlStr = Inr n"
    and run: "fetchRows (maxRows c) (map initWidth cols) [] rows = (colWidths, allRows, rest)"
  shows "term_out (executeCommand d sqlStr c) =
           term_out c @
           footer_spec (timingEnabled c) n (elapsedMs d (calls c @ [ExecContext sqlStr])) \<and>
         term_out (displayTable elapsed cols rows c) =
           term_out c @ printSeparator colWidths @ printCells colWidths cols @
           printSeparator colWidths @ concat (map (printCells colWidths) allRows) @
           printSeparator colWidths @
           footer_spec (timingEnabled c) (int (length allRows)) elapsed \<and>
         (\<exists>ds fs. showSeconds ms = ds @ ''.'' @ fs \<and> ds \<noteq> [] \<and> list_all isDigit ds \<and>
            length fs = 3 \<and> list_all isDigit fs)"
proof -
  from showSeconds_shape [of ms] obtain ds fs where
    "showSeconds ms = ds @ ''.'' @ fs" "ds \<noteq> []" "list_all isDigit ds" "length fs = 3"
    "list_all isDigit fs" by blast
  then have "\<exists>ds fs. showSeconds ms = ds @ ''.'' @ fs \<and> ds \<noteq> [] \<and> list_all isDigit ds \<and>
            length fs = 3 \<and> list_all isDigit fs" by blast
  with executeCommand_out [OF exec] displayTable_out [OF run, of elapsed] show ?thesis by simp
qed

theorem footer_after_every_execution_witness:
  "term_out (executeCommand sampleDriver ''update t set x=1''
      ((NewCLI ''master'')\<lparr>timingEnabled := True\<rparr>)) =
     [Text (''(3 rows affected)'' @ [CHR 0x0A]), Text (''Time: 0.012 sec'' @ [CHR 0x0A]),
      Text [CHR 0x0A]] \<and>
   term_out (displayTable 12 [''id''] [[VOther ''7'']] ((NewCLI ''master'')\<lparr>timingEnabled := True\<rparr>)) =
     printSeparator [4] @ printCells [4] [''id''] @ printSeparator [4] @
     printCells [4] [''7''] @ printSeparator [4] @
     [Text (''(1 row affected)'' @ [CHR 0x0A]), Text (''Time: 0.012 sec'' @ [CHR 0x0A]),
      Text [CHR 0x0A]]"
proof -
  let ?c = "(NewCLI ''master'')\<lparr>timingEnabled := True\<rparr>"
  have exec: "execReply sampleDriver (calls ?c) ''update t set x=1'' = Inr 3"
    by (simp add: sampleDriver_def)
  have run: "fetchRows (maxRows ?c) (map initWidth [''id'']) [] [[VOther ''7'']] =
      ([4], [[''7'']], [])"
    by code_simp
  have clock: "elapsedMs sampleDriver h = 12" for h
    by (simp add: sampleDriver_def)
  have f3: "footer_spec True 3 12 = [Text (''(3 rows affected)'' @ [CHR 0x0A]),
     Text (''Time: 0.012 sec'' @ [CHR 0x0A]), Text [CHR 0x0A]]" by code_simp
  have f1: "footer_spec True 1 12 = [Text (''(1 row affected)'' @ [CHR 0x0A]),
     Text (''Time: 0.012 sec'' @ [CHR 0x0A]), Text [CHR 0x0A]]" by code_simp
  have t: "timingEnabled ?c = True" "term_out ?c = []" by (simp_all add: NewCLI_def)
  from footer_after_every_execution [OF exec run, of 12 0] show ?thesis
    by (simp add: clock f3 f1 t)
qed

text \<open>The counts 0, 1 and 2 of the specification, and three rows in 12 ms with timing.\<close>

lemma footer_examples:
  "footer_spec False 0 0 = [Text (''(0 rows affected)'' @ [CHR 0x0A]), Text [CHR 0x0A]] \<and>
   footer_spec False 1 0 = [Text (''(1 row affected)'' @ [CHR 0x0A]), Text [CHR 0x0A]] \<and>
   footer_spec False 2 0 = [Text (''(2 rows affected)'' @ [CHR 0x0A]), Text [CHR 0x0A]] \<and>
   footer_spec True 3 12 = [Text (''(3 rows affected)'' @ [CHR 0x0A]),
     Text (''Time: 0.012 sec'' @ [CHR 0x0A]), Text [CHR 0x0A]]"
  by code_simp


section \<open>The row cap\<close>

text \<open>No function of the session assigns \<open>maxRows\<close>: it is 1000 from \<open>NewCLI\<close> on.\<close>

lemma maxRows_emit [simp]: "maxRows (emit s c) = maxRows c"
  by (simp add: emit_def)

lemma maxRows_emitAll [simp]: "maxRows (emitAll ws c) = maxRows c"
  by (simp add: emitAll_def)

lemma maxRows_handleSpecialCommand:
  "maxRows (snd (handleSpecialCommand d cmd c)) = maxRows c"
  by (simp add: handleSpecialCommand_def Let_def showHelp_def useDatabase_def split: sum.splits)

lemma maxRows_displayTable: "maxRows (displayTable elapsed cols rows c) = maxRows c"
  by (simp add: displayTable_def Let_def split: prod.splits)

lemma maxRows_executeSQL: "maxRows (executeSQL d sqlStr c) = maxRows c"
  by (simp add: executeSQL_def executeQuery_def executeCommand_def printError_def Let_def
      maxRows_displayTable split: sum.splits prod.splits)

lemma maxRows_NewCLI: "maxRows (NewCLI db) = 1000"
  by (simp add: NewCLI_def)

lemma maxRows_Start: "Start d c es = Some c' \<Longrightarrow> maxRows c' = maxRows c"
proof (induction d c es rule: Start.induct)
  case (1 d c es)
  show ?case
  proof (cases "readMultiLine (emitAll [Format (getPrompt c)] c) es")
    case None
    then have "Start d c es = None" by (subst Start.simps) simp
    with "1.prems" show ?thesis by simp
  next
    case (Some r)
    obtain s c1 rest where r: "r = (s, c1, rest)" by (cases r)
    have m1: "maxRows c1 = maxRows c"
      using Some r readLoop_frame [of "emitAll [Format (getPrompt c)] c" "[]" es s c1 rest]
      by (simp add: readMultiLine_def)
    show ?thesis
    proof (cases "s = []")
      case True
      have "Start d c es = Start d c1 rest" by (subst Start.simps) (simp add: Some r True)
      with "1.prems" have "Start d c1 rest = Some c'" by simp
      from "1.IH"(1) [OF Some r [symmetric] refl True this] m1 show ?thesis by simp
    next
      case False
      obtain handled c2 where h: "handleSpecialCommand d (TrimSpace s) c1 = (handled, c2)"
        by (cases "handleSpecialCommand d (TrimSpace s) c1")
      have m2: "maxRows c2 = maxRows c1"
        using maxRows_handleSpecialCommand [of d "TrimSpace s" c1] h by simp
      show ?thesis
      proof (cases handled)
        case True
        show ?thesis
        proof (cases "ToLower (TrimSpace s) = ''exit'' \<or> ToLower (TrimSpace s) = ''quit''")
          case leave: True
          have "Start d c es = Some c2"
            by (subst Start.simps) (simp add: Some r False h True leave)
          with "1.prems" have "c' = c2" by simp
          with m1 m2 show ?thesis by simp
        next
          case nx: False
          have "Start d c es = Start d c2 rest"
            by (subst Start.simps) (simp add: Some r False h True nx)
          with "1.prems" have "Start d c2 rest = Some c'" by simp
          from "1.IH"(2) [OF Some r [symmetric] refl False refl refl h [symmetric] True nx this]
            m1 m2
          show ?thesis by simp
        qed
      next
        case nh: False
        have "Start d c es = Start d (executeSQL d (TrimSpace s) c2) rest"
          by (subst Start.simps) (simp add: Some r False h nh)
        with "1.prems" have "Start d (executeSQL d (TrimSpace s) c2) rest = Some c'" by simp
        from "1.IH"(3) [OF Some r [symmetric] refl False refl refl h [symmetric] nh this] m1 m2
        show ?thesis by (simp add: maxRows_executeSQL)
      qed
    qed
  qed
qed

text \<open>
  C7: when the cursor has more rows than \<open>maxRows\<close>, the loop keeps exactly \<open>maxRows\<close>
  rows and leaves the others in the cursor, the table has one line for each row kept,
  and the footer counts \<open>maxRows\<close> rows. \<open>NewCLI\<close> sets \<open>maxRows\<close> to 1000 and no
  function assigns it; the statement is for every cap from 1 on.
\<close>

theorem row_cap:
  assumes cap: "1 \<le> maxRows c" and more: "maxRows c < int (length rows)"
    and run: "fetchRows (maxRows c) (map initWidth cols) [] rows = (colWidths, allRows, rest)"
  shows "int (length allRows) = maxRows c \<and> rest = drop (nat (maxRows c)) rows \<and>
         term_out (displayTable elapsed cols rows c) =
           term_out c @ printSeparator colWidths @ printCells colWidths cols @
           printSeparator colWidths @ concat (map (printCells colWidths) allRows) @
           printSeparator colWidths @ footer_spec (timingEnabled c) (maxRows c) elapsed"
proof -
  have lt: "int (length ([] :: string list list)) < maxRows c" using cap by simp
  have le: "maxRows c \<le> int (length ([] :: string list list) + length rows)" using more by simp
  from fetchRows_count [OF run lt le]
  have n: "int (length allRows) = maxRows c" and r: "rest = drop (nat (maxRows c)) rows"
    by simp_all
  from displayTable_out [OF run, of elapsed] n r show ?thesis by simp
qed

theorem row_cap_witness:
  "1 \<le> maxRows (NewCLI ''master'') \<and>
   maxRows (NewCLI ''master'') < int (length (replicate 1001 [VOther ''1''])) \<and>
   int (length (fst (snd (fetchRows (maxRows (NewCLI ''master'')) (map initWidth [''id'']) []
        (replicate 1001 [VOther ''1'']))))) = 1000 \<and>
   snd (snd (fetchRows (maxRows (NewCLI ''master'')) (map initWidth [''id'']) []
        (replicate 1001 [VOther ''1'']))) = drop 1000 (replicate 1001 [VOther ''1''])"
proof -
  have cap: "1 \<le> maxRows (NewCLI ''master'')" by (simp add: NewCLI_def)
  have more: "maxRows (NewCLI ''master'') < int (length (replicate 1001 [VOther ''1'']))"
    by (simp add: NewCLI_def)
  have run: "fetchRows (maxRows (NewCLI ''master'')) (map initWidth [''id'']) []
        (replicate 1001 [VOther ''1'']) =
      (fst (fetchRows (maxRows (NewCLI ''master'')) (map initWidth [''id'']) []
        (replicate 1001 [VOther ''1''])),
       fst (snd (fetchRows (maxRows (NewCLI ''master'')) (map initWidth [''id'']) []
        (replicate 1001 [VOther ''1'']))),
       snd (snd (fetchRows (maxRows (NewCLI ''master'')) (map initWidth [''id'']) []
        (replicate 1001 [VOther ''1'']))))"
    by simp
  have m: "maxRows (NewCLI ''master'') = 1000" by (simp add: NewCLI_def)
  from row_cap [OF cap more run] show ?thesis using cap more m by simp
qed

section \<open>Properties of the meta-commands\<close>













lemma calls_emit [simp]: "calls (emit s c) = calls c"
  by (simp add: emit_def)

lemma database_emit [simp]: "database (emit s c) = database c"
  by (simp add: emit_def)








section \<open>Changing the database\<close>








text \<open>A session: a failed \<open>use\<close>, a successful one, and \<open>exit\<close>.\<close>

lemma Start_use_then_exit:
  "map_option database
     (Start sampleDriver (NewCLI ''master'')
        [Line ''use nodb;'', Line ''use sales'', Line ''go'', Line ''exit;'']) = Some ''sales''"
  by code_simp

end
